theory Spec2Isabelle
  imports Main "HOL-Library.Word"
begin

unbundle bit_operations_syntax

section \<open>The USB relay controller (src/src/usbrelay.cpp)\<close>

text \<open>
  The class \<open>Usbrelay\<close> drives a relay board over a serial line. This theory embeds
  its protocol layer: the two history buffers, \<open>send\<close>, \<open>recieve\<close>, \<open>initBoard\<close>, both
  \<open>setState\<close> overloads and \<open>getState\<close>.

  \<^item> A \<open>char\<close> or \<open>uint8_t\<close> is an \<open>8 word\<close>; an \<open>int\<close> command or array entry is a
    \<open>32 word\<close>, and its conversion to \<open>uint8_t\<close> is \<open>ucast\<close> (the low eight bits).
  \<^item> A status returned by the serial library and the field \<open>relaynumber\<close> are \<open>int\<close>:
    they are only compared, and \<open>relaynumber\<close> is only decremented by one or two.
  \<^item> The header \<open>usbrelay.hpp\<close> is not among the sources, so the declared sizes of
    \<open>bufferrx\<close> and \<open>buffertx\<close> (what \<open>sizeof\<close> yields for the \<open>char\<close> arrays) are
    parameters \<open>rxsize\<close> and \<open>txsize\<close> of every operation that inserts.
\<close>

type_synonym byte = "8 word"
type_synonym cint = "32 word"

subsection \<open>The history buffers\<close>

text \<open>
  A buffer is the memory at and after the start of the array: \<open>buf k\<close> is the byte at
  offset \<open>k\<close>. The offsets below the declared size are the array; an offset at or
  beyond it is memory outside the array. Every load and store of an insert is recorded,
  in program order.
\<close>

type_synonym buffer = "nat \<Rightarrow> byte"

datatype access = Load nat | Store nat

fun offset :: "access \<Rightarrow> nat" where
  "offset (Load k) = k"
| "offset (Store k) = k"

text \<open>
  The loop \<open>for (int k = length - 1; k >= 0; k--) buf[k + 1] = buf[k];\<close>.
  \<open>shift_right n\<close> runs the iterations \<open>k = n - 1\<close> down to \<open>k = 0\<close>.
\<close>

fun shift_right :: "nat \<Rightarrow> buffer \<times> access list \<Rightarrow> buffer \<times> access list" where
  "shift_right 0 (buf, log) = (buf, log)"
| "shift_right (Suc k) (buf, log) =
     shift_right k (buf(Suc k := buf k), log @ [Load k, Store (Suc k)])"

text \<open>The body shared by \<open>bufferrxAdd\<close> and \<open>buffertxAdd\<close>: shift, then store at the front.\<close>

definition bufferAdd :: "nat \<Rightarrow> byte \<Rightarrow> buffer \<Rightarrow> buffer \<times> access list" where
  "bufferAdd len elt buf =
     (case shift_right len (buf, []) of
        (buf', log) \<Rightarrow> (buf'(0 := elt), log @ [Store 0]))"

text \<open>The array proper: the cells at the offsets \<open>0 .. cap - 1\<close>, newest first.\<close>

definition history :: "nat \<Rightarrow> buffer \<Rightarrow> byte list" where
  "history cap buf = map buf [0..<cap]"

subsection \<open>The serial transport and the controller\<close>

text \<open>
  Modelled from the spec: the serial transport (\<open>serialib\<close>, an external collaborator
  whose code is not among the sources) writes one byte and returns a status, and reads
  one byte with a timeout and returns a status. Its outcomes are parameters:
  \<open>write_status t i\<close> is the status of the \<open>i\<close>-th \<open>writeChar\<close> call, and
  \<open>read_result t i\<close> is the status of the \<open>i\<close>-th \<open>readChar\<close> call together with the
  byte found in \<open>tempbuffer[0]\<close> afterwards. \<open>written\<close> lists the bytes handed to
  \<open>writeChar\<close>, oldest first, and \<open>reads\<close> counts the \<open>readChar\<close> calls.
\<close>

record serialib =
  write_status :: "nat \<Rightarrow> int"
  read_result :: "nat \<Rightarrow> int \<times> byte"
  written :: "byte list"
  reads :: nat

definition writeChar :: "byte \<Rightarrow> serialib \<Rightarrow> int \<times> serialib" where
  "writeChar c t = (write_status t (length (written t)), t\<lparr>written := written t @ [c]\<rparr>)"

definition readChar :: "serialib \<Rightarrow> (int \<times> byte) \<times> serialib" where
  "readChar t = (read_result t (reads t), t\<lparr>reads := Suc (reads t)\<rparr>)"

text \<open>
  The controller object, and with it the delays requested from \<open>os_sleep\<close> so far
  (in milliseconds, oldest first).
\<close>

record usbrelay =
  relaynumber :: int
  boardinterface :: serialib
  bufferrx :: buffer
  buffertx :: buffer
  slept :: "nat list"

definition os_sleep :: "nat \<Rightarrow> usbrelay \<Rightarrow> usbrelay" where
  "os_sleep milliseconds s = s\<lparr>slept := slept s @ [milliseconds]\<rparr>"

definition bufferrxAdd :: "nat \<Rightarrow> byte \<Rightarrow> usbrelay \<Rightarrow> usbrelay" where
  "bufferrxAdd rxsize elt s = s\<lparr>bufferrx := fst (bufferAdd rxsize elt (bufferrx s))\<rparr>"

definition buffertxAdd :: "nat \<Rightarrow> byte \<Rightarrow> usbrelay \<Rightarrow> usbrelay" where
  "buffertxAdd txsize elt s = s\<lparr>buffertx := fst (bufferAdd txsize elt (buffertx s))\<rparr>"

text \<open>The loads and stores that one insert performs on its array, in program order.\<close>

definition bufferrxAdd_accesses :: "nat \<Rightarrow> byte \<Rightarrow> usbrelay \<Rightarrow> access list" where
  "bufferrxAdd_accesses rxsize elt s = snd (bufferAdd rxsize elt (bufferrx s))"

definition buffertxAdd_accesses :: "nat \<Rightarrow> byte \<Rightarrow> usbrelay \<Rightarrow> access list" where
  "buffertxAdd_accesses txsize elt s = snd (bufferAdd txsize elt (buffertx s))"

subsection \<open>Raw input and output\<close>

definition send :: "nat \<Rightarrow> byte \<Rightarrow> nat \<Rightarrow> usbrelay \<Rightarrow> int \<times> usbrelay" where
  "send txsize data milliseconds s =
     (let s1 = buffertxAdd txsize data s in
      case writeChar (buffertx s1 0) (boardinterface s1) of
        (status, t) \<Rightarrow> (status, os_sleep milliseconds (s1\<lparr>boardinterface := t\<rparr>)))"

text \<open>
  The local \<open>status\<close> of \<open>recieve\<close> is declared without an initial value: \<open>None\<close> is
  that indeterminate content, \<open>Some v\<close> a status assigned from \<open>readChar\<close>.
  \<open>recieve_loop n\<close> runs the remaining \<open>n\<close> iterations of the loop.
\<close>

fun recieve_loop :: "nat \<Rightarrow> nat \<Rightarrow> int option \<Rightarrow> usbrelay \<Rightarrow> int option \<times> usbrelay" where
  "recieve_loop rxsize 0 status s = (status, s)"
| "recieve_loop rxsize (Suc n) status s =
     (case readChar (boardinterface s) of
        ((st, c), t) \<Rightarrow>
          (let s' = bufferrxAdd rxsize c (s\<lparr>boardinterface := t\<rparr>) in
           if st \<noteq> 1 then (Some st, s') else recieve_loop rxsize n (Some st) s'))"

definition recieve :: "nat \<Rightarrow> int \<Rightarrow> usbrelay \<Rightarrow> int option \<times> usbrelay" where
  "recieve rxsize nbyte s = recieve_loop rxsize (nat nbyte) None s"

subsection \<open>The handshake\<close>

text \<open>
  \<open>initBoard\<close>: the probe, the one-byte answer, and the \<open>switch\<close> on the answer, which
  has the three cases below and no \<open>default\<close>.
\<close>

definition initBoard :: "nat \<Rightarrow> nat \<Rightarrow> usbrelay \<Rightarrow> int \<times> usbrelay" where
  "initBoard rxsize txsize s =
     (case send txsize 0x50 200 s of
        (st1, s1) \<Rightarrow>
          if st1 \<noteq> 1 then (- 1, s1)
          else (case recieve rxsize 1 s1 of
                  (st2, s2) \<Rightarrow>
                    if st2 \<noteq> Some 1 then (- 1, s2)
                    else (let data = bufferrx s2 0 in
                          if data = 0xad then
                            (case send txsize 0x51 10 (s2\<lparr>relaynumber := 2\<rparr>) of
                               (st3, s3) \<Rightarrow>
                                 if st3 \<noteq> 1 then (- 1, s3)
                                 else (case send txsize 0xff 10 s3 of
                                         (st4, s4) \<Rightarrow> if st4 \<noteq> 1 then (- 1, s4) else (1, s4)))
                          else if data = 0xab then
                            (case send txsize 0x51 10 (s2\<lparr>relaynumber := 4\<rparr>) of
                               (st3, s3) \<Rightarrow>
                                 if st3 \<noteq> 1 then (- 1, s3)
                                 else (case send txsize 0xff 10 s3 of
                                         (st4, s4) \<Rightarrow> if st4 \<noteq> 1 then (- 1, s4) else (1, s4)))
                          else if data = 0xac then
                            (case send txsize 0x51 10 (s2\<lparr>relaynumber := 8\<rparr>) of
                               (st3, s3) \<Rightarrow>
                                 if st3 \<noteq> 1 then (- 1, s3)
                                 else (case send txsize 0xff 10 s3 of
                                         (st4, s4) \<Rightarrow> if st4 \<noteq> 1 then (- 1, s4) else (1, s4)))
                          else (1, s2))))"

subsection \<open>Setting and reading the relay state\<close>

text \<open>
  \<open>setState(int command)\<close>: \<open>case 2\<close> and \<open>default\<close>. The assignment to the \<open>uint8_t\<close>
  \<open>com\<close> keeps the low eight bits of the \<open>int\<close> on its right.
\<close>

definition setState :: "nat \<Rightarrow> cint \<Rightarrow> usbrelay \<Rightarrow> int \<times> usbrelay" where
  "setState txsize command s =
     (if relaynumber s = 2
      then (let com = ucast (command AND 3) :: byte in
            case send txsize com 50 s of (st, s') \<Rightarrow> if st \<noteq> 1 then (- 1, s') else (1, s'))
      else (let com = ucast (NOT command) :: byte in
            case send txsize com 50 s of (st, s') \<Rightarrow> if st \<noteq> 1 then (- 1, s') else (1, s')))"

text \<open>
  \<open>setState(int commandarray[])\<close>. The array is the list of its entries; reading at an
  index outside the list is \<open>OutOfBounds\<close>. \<open>pack_bits v arr n com\<close> runs the loop
  iterations \<open>k = n - 1\<close> down to \<open>k = 0\<close>: shift \<open>com\<close> left, and add one where
  \<open>commandarray[k] == v\<close>. The loops of the source start at \<open>k = relaynumber - 2\<close>,
  so they are \<open>pack_bits v arr (relaynumber - 1)\<close>, and none runs when that is not
  positive.
\<close>

datatype error = OutOfBounds

definition array_at :: "cint list \<Rightarrow> int \<Rightarrow> error + cint" where
  "array_at arr i =
     (if 0 \<le> i \<and> i < int (length arr) then Inr (arr ! nat i) else Inl OutOfBounds)"

fun pack_bits :: "cint \<Rightarrow> cint list \<Rightarrow> nat \<Rightarrow> byte \<Rightarrow> error + byte" where
  "pack_bits v arr 0 com = Inr com"
| "pack_bits v arr (Suc k) com =
     (if k < length arr
      then pack_bits v arr k (if arr ! k = v then push_bit 1 com + 1 else push_bit 1 com)
      else Inl OutOfBounds)"

definition setState_array :: "nat \<Rightarrow> cint list \<Rightarrow> usbrelay \<Rightarrow> error + int \<times> usbrelay" where
  "setState_array txsize commandarray s =
     (if relaynumber s = 2
      then (case array_at commandarray (relaynumber s - 1) of
              Inl e \<Rightarrow> Inl e
            | Inr a \<Rightarrow>
                (case pack_bits 1 commandarray (nat (relaynumber s - 1)) (ucast a) of
                   Inl e \<Rightarrow> Inl e
                 | Inr com \<Rightarrow>
                     (case send txsize com 50 s of
                        (st, s') \<Rightarrow> Inr (if st \<noteq> 1 then (- 1, s') else (1, s')))))
      else (case array_at commandarray (relaynumber s - 1) of
              Inl e \<Rightarrow> Inl e
            | Inr a \<Rightarrow>
                (case pack_bits 0 commandarray (nat (relaynumber s - 1))
                        (if a = 0 then 1 else 0) of
                   Inl e \<Rightarrow> Inl e
                 | Inr com \<Rightarrow>
                     (case send txsize com 50 s of
                        (st, s') \<Rightarrow> Inr (if st \<noteq> 1 then (- 1, s') else (1, s'))))))"

definition getState :: "usbrelay \<Rightarrow> byte" where
  "getState s = (if relaynumber s = 2 then buffertx s 0 else NOT (buffertx s 0))"

definition getrx :: "usbrelay \<Rightarrow> byte" where
  "getrx s = bufferrx s 0"

text \<open>
  The bitmask that stands for a per-relay array, in the specification's words: bit \<open>k\<close>
  of the mask is entry \<open>k\<close> of the array (entries are 0 or 1).
\<close>

fun bitmask_of :: "cint list \<Rightarrow> cint" where
  "bitmask_of [] = 0"
| "bitmask_of (a # as) = a + 2 * bitmask_of as"

subsection \<open>Notation for the statements\<close>

text \<open>
  Seen from a state \<open>s\<close>, \<open>read_status s i\<close> and \<open>read_byte s i\<close> are the status and the
  byte of the read that comes \<open>i\<close> reads after the ones already made, and
  \<open>write_result s\<close> is the status that the next write will return.
\<close>

definition read_status :: "usbrelay \<Rightarrow> nat \<Rightarrow> int" where
  "read_status s i = fst (read_result (boardinterface s) (reads (boardinterface s) + i))"

definition read_byte :: "usbrelay \<Rightarrow> nat \<Rightarrow> byte" where
  "read_byte s i = snd (read_result (boardinterface s) (reads (boardinterface s) + i))"

definition write_result :: "usbrelay \<Rightarrow> int" where
  "write_result s = write_status (boardinterface s) (length (written (boardinterface s)))"

definition wire :: "usbrelay \<Rightarrow> byte list" where
  "wire s = written (boardinterface s)"

text \<open>
  Parts of the operations above, named for the proofs: the two sends that follow a
  recognised answer in \<open>initBoard\<close>; the send that ends either \<open>setState\<close>; the byte
  \<open>com\<close> that \<open>setState(int)\<close> computes for relay count \<open>n\<close>; the byte \<open>com\<close> that
  \<open>setState(int[])\<close> computes.
\<close>

definition init_commands :: "nat \<Rightarrow> usbrelay \<Rightarrow> int \<times> usbrelay" where
  "init_commands txsize s =
     (case send txsize 0x51 10 s of
        (st1, s1) \<Rightarrow>
          if st1 \<noteq> 1 then (- 1, s1)
          else (case send txsize 0xff 10 s1 of
                  (st2, s2) \<Rightarrow> if st2 \<noteq> 1 then (- 1, s2) else (1, s2)))"

definition send_command :: "nat \<Rightarrow> byte \<Rightarrow> usbrelay \<Rightarrow> int \<times> usbrelay" where
  "send_command txsize com s =
     (case send txsize com 50 s of (st, s') \<Rightarrow> if st \<noteq> 1 then (- 1, s') else (1, s'))"

definition command_byte :: "int \<Rightarrow> cint \<Rightarrow> byte" where
  "command_byte n command = (if n = 2 then ucast (command AND 3) else ucast (NOT command))"

definition array_byte :: "int \<Rightarrow> cint list \<Rightarrow> error + byte" where
  "array_byte n commandarray =
     (case array_at commandarray (n - 1) of
        Inl e \<Rightarrow> Inl e
      | Inr a \<Rightarrow>
          if n = 2 then pack_bits 1 commandarray (nat (n - 1)) (ucast a)
          else pack_bits 0 commandarray (nat (n - 1)) (if a = 0 then 1 else 0))"

text \<open>The state after \<open>k\<close> more reads, each followed by its insert into \<open>bufferrx\<close>.\<close>

definition after_reads :: "nat \<Rightarrow> nat \<Rightarrow> usbrelay \<Rightarrow> usbrelay" where
  "after_reads rxsize k s =
     s\<lparr>boardinterface := (boardinterface s)\<lparr>reads := reads (boardinterface s) + k\<rparr>,
       bufferrx := foldl (\<lambda>b e. fst (bufferAdd rxsize e b)) (bufferrx s)
                     (map (read_byte s) [0..<k])\<rparr>"

text \<open>
  Concrete inputs: a transport that answers the writes with the statuses \<open>ws\<close> (then
  with 1) and the reads with the results \<open>rs\<close> (then with a timeout, status 0), and a
  controller with relay count \<open>n\<close> on it whose buffers hold zeros.
\<close>

definition link :: "int list \<Rightarrow> (int \<times> byte) list \<Rightarrow> serialib" where
  "link ws rs =
     \<lparr>write_status = (\<lambda>i. if i < length ws then ws ! i else 1),
      read_result = (\<lambda>i. if i < length rs then rs ! i else (0, 0)),
      written = [], reads = 0\<rparr>"

definition board :: "int \<Rightarrow> serialib \<Rightarrow> usbrelay" where
  "board n t = \<lparr>relaynumber = n, boardinterface = t, bufferrx = (\<lambda>_. 0),
                 buffertx = (\<lambda>_. 0), slept = []\<rparr>"

section \<open>Properties\<close>

subsection \<open>The history buffers\<close>

lemma shift_right_fst:
  "fst (shift_right n (buf, log)) = (\<lambda>i. if 0 < i \<and> i \<le> n then buf (i - 1) else buf i)"
proof (induction n arbitrary: buf log)
  case 0
  show ?case by (simp add: fun_eq_iff)
next
  case (Suc n)
  show ?case by (auto simp: Suc.IH fun_eq_iff le_Suc_eq)
qed

lemma shift_right_snd:
  "snd (shift_right n (buf, log)) =
     log @ concat (map (\<lambda>k. [Load k, Store (Suc k)]) (rev [0..<n]))"
  by (induction n arbitrary: buf log) simp_all

lemma bufferAdd_fst:
  "fst (bufferAdd n e buf) =
     (\<lambda>i. if i = 0 then e else if i \<le> n then buf (i - 1) else buf i)"
  using shift_right_fst [of n buf "[]"]
  by (auto simp: bufferAdd_def fun_eq_iff split: prod.splits)

lemma bufferAdd_snd:
  "snd (bufferAdd n e buf) =
     concat (map (\<lambda>k. [Load k, Store (Suc k)]) (rev [0..<n])) @ [Store 0]"
  using shift_right_snd [of n buf "[]"]
  by (auto simp: bufferAdd_def split: prod.splits)

lemma bufferAdd_front: "fst (bufferAdd n e buf) 0 = e"
  by (simp add: bufferAdd_fst)

lemma length_history: "length (history cap buf) = cap"
  by (simp add: history_def)

lemma history_bufferAdd:
  "history cap (fst (bufferAdd cap e buf)) = take cap (e # history cap buf)"
  by (rule nth_equalityI) (auto simp: history_def bufferAdd_fst nth_Cons')

lemma history_inserts:
  "history cap (foldl (\<lambda>b e. fst (bufferAdd cap e b)) buf xs) =
     take cap (rev xs @ history cap buf)"
proof (induction xs arbitrary: buf)
  case Nil
  show ?case by (simp add: length_history)
next
  case (Cons x xs)
  have "take cap (rev xs @ take cap (x # history cap buf)) =
        take cap (rev xs @ x # history cap buf)"
    by (simp add: take_Cons' length_history)
  then show ?case by (simp add: Cons.IH history_bufferAdd)
qed

lemma bufferrx_inserts:
  "bufferrx (foldl (\<lambda>s e. bufferrxAdd cap e s) s xs) =
     foldl (\<lambda>b e. fst (bufferAdd cap e b)) (bufferrx s) xs"
  by (induction xs arbitrary: s) (simp_all add: bufferrxAdd_def)

lemma buffertx_inserts:
  "buffertx (foldl (\<lambda>s e. buffertxAdd cap e s) s xs) =
     foldl (\<lambda>b e. fst (bufferAdd cap e b)) (buffertx s) xs"
  by (induction xs arbitrary: s) (simp_all add: buffertxAdd_def)

text \<open>
  C7. After more inserts than the declared size \<open>cap\<close> of a history buffer, the array
  holds exactly the \<open>cap\<close> bytes inserted last, the newest at index 0; this is so for
  the receive history and for the transmit history.
\<close>

theorem history_keeps_newest:
  assumes "cap < length xs"
  shows "history cap (bufferrx (foldl (\<lambda>s e. bufferrxAdd cap e s) s xs)) = take cap (rev xs)
       \<and> history cap (buffertx (foldl (\<lambda>s e. buffertxAdd cap e s) s xs)) = take cap (rev xs)"
  using assms by (simp add: bufferrx_inserts buffertx_inserts history_inserts)

theorem history_keeps_newest_witness:
  "(2::nat) < length [1, 2, 3 :: byte]
   \<and> history 2 (bufferrx (foldl (\<lambda>s e. bufferrxAdd 2 e s) (board 4 (link [] [])) [1, 2, 3]))
       = [3, 2]
   \<and> history 2 (buffertx (foldl (\<lambda>s e. buffertxAdd 2 e s) (board 4 (link [] [])) [1, 2, 3]))
       = [3, 2]"
proof -
  have h: "(2::nat) < length [1, 2, 3 :: byte]" by simp
  show ?thesis
    using h history_keeps_newest [OF h, of "board 4 (link [] [])"] by simp
qed

text \<open>
  C8. The claim is that every index an insert loads from or stores to lies in
  \<open>0 .. capacity - 1\<close>. The first iteration of the shifting loop has
  \<open>k = length - 1\<close> and stores to \<open>buf[k + 1]\<close>: each insert, into the receive history
  and into the transmit history alike, stores at the index equal to the declared size,
  one element past the end of the array. With a declared size of 4 the accesses are as
  listed.
\<close>

theorem insert_stores_past_the_end:
  "Store rxsize \<in> set (bufferrxAdd_accesses rxsize elt s)
   \<and> Store txsize \<in> set (buffertxAdd_accesses txsize elt s)
   \<and> bufferrxAdd_accesses 4 elt s =
       [Load 3, Store 4, Load 2, Store 3, Load 1, Store 2, Load 0, Store 1, Store 0]"
proof -
  have "Store n \<in> set (snd (bufferAdd n e buf))" for n e buf
    by (cases n) (simp_all add: bufferAdd_snd)
  moreover have "[0..<4] = [0, 1, 2, 3]"
    by (simp add: upt_rec)
  ultimately show ?thesis
    by (simp add: bufferrxAdd_accesses_def buffertxAdd_accesses_def bufferAdd_snd)
qed

subsection \<open>Raw input and output\<close>

lemma send_eq:
  "send txsize d ms s =
     (write_result s,
      s\<lparr>boardinterface := (boardinterface s)\<lparr>written := written (boardinterface s) @ [d]\<rparr>,
        buffertx := fst (bufferAdd txsize d (buffertx s)),
        slept := slept s @ [ms]\<rparr>)"
  by (simp add: send_def buffertxAdd_def writeChar_def os_sleep_def bufferAdd_fst
      write_result_def)

text \<open>
  C6. When the transport write fails, \<open>send\<close> returns the status of that write, has
  called the transport once (the attempted byte is the only new entry in its list of
  written bytes), and the transmit history is the old one with the attempted byte
  inserted at the front and the oldest entry dropped.
\<close>

theorem send_failure_propagated:
  assumes "write_result s \<noteq> 1"
  shows "fst (send txsize data ms s) = write_result s
       \<and> wire (snd (send txsize data ms s)) = wire s @ [data]
       \<and> history txsize (buffertx (snd (send txsize data ms s))) =
           take txsize (data # history txsize (buffertx s))"
  using assms by (simp add: send_eq wire_def history_bufferAdd)

theorem send_failure_propagated_witness:
  "write_result (board 2 (link [- 1] [])) \<noteq> 1
   \<and> fst (send 3 0x50 200 (board 2 (link [- 1] []))) = - 1
   \<and> wire (snd (send 3 0x50 200 (board 2 (link [- 1] [])))) = [0x50]
   \<and> history 3 (buffertx (snd (send 3 0x50 200 (board 2 (link [- 1] []))))) = [0x50, 0, 0]"
proof -
  have h: "write_result (board 2 (link [- 1] [])) \<noteq> 1"
    by (simp add: write_result_def board_def link_def)
  have v: "write_result (board 2 (link [- 1] [])) = - 1"
    by (simp add: write_result_def board_def link_def)
  have w: "wire (board 2 (link [- 1] [])) = []"
    by (simp add: wire_def board_def link_def)
  have b: "history 3 (buffertx (board 2 (link [- 1] []))) = [0, 0, 0]"
    by (simp add: history_def board_def upt_rec)
  show ?thesis
    using h send_failure_propagated [OF h, of 3 "0x50" 200] by (simp add: v w b)
qed

lemma after_reads_0: "after_reads rxsize 0 s = s"
  by (simp add: after_reads_def)

lemma read_step:
  "bufferrxAdd rxsize (read_byte s 0) (s\<lparr>boardinterface := snd (readChar (boardinterface s))\<rparr>) =
     after_reads rxsize (Suc 0) s"
  by (simp add: after_reads_def bufferrxAdd_def readChar_def)

lemma read_byte_after_1: "read_byte (after_reads rxsize (Suc 0) s) i = read_byte s (Suc i)"
  by (simp add: read_byte_def after_reads_def)

lemma read_bytes_Suc:
  "map (read_byte s) [0..<Suc k] = read_byte s 0 # map (\<lambda>i. read_byte s (Suc i)) [0..<k]"
  by (simp add: upt_rec [of 0 "Suc k"] map_Suc_upt [symmetric] del: upt_Suc)

lemma after_reads_Suc:
  "after_reads rxsize k (after_reads rxsize (Suc 0) s) = after_reads rxsize (Suc k) s"
proof -
  let ?s1 = "after_reads rxsize (Suc 0) s"
  have "after_reads rxsize k ?s1 =
      ?s1\<lparr>boardinterface := (boardinterface ?s1)\<lparr>reads := reads (boardinterface ?s1) + k\<rparr>,
          bufferrx := foldl (\<lambda>b e. fst (bufferAdd rxsize e b)) (bufferrx ?s1)
                        (map (\<lambda>i. read_byte s (Suc i)) [0..<k])\<rparr>"
    unfolding after_reads_def [of rxsize k] read_byte_after_1 ..
  also have "\<dots> = after_reads rxsize (Suc k) s"
    unfolding after_reads_def [of rxsize "Suc k"] read_bytes_Suc
    by (simp add: after_reads_def)
  finally show ?thesis .
qed

lemma after_reads_add:
  "after_reads rxsize j (after_reads rxsize k s) = after_reads rxsize (k + j) s"
proof (induction k arbitrary: s)
  case 0
  show ?case by (simp add: after_reads_0)
next
  case (Suc k)
  have "after_reads rxsize j (after_reads rxsize (Suc k) s) =
        after_reads rxsize j (after_reads rxsize k (after_reads rxsize (Suc 0) s))"
    by (simp only: after_reads_Suc)
  also have "\<dots> = after_reads rxsize (k + j) (after_reads rxsize (Suc 0) s)"
    by (rule Suc.IH)
  also have "\<dots> = after_reads rxsize (Suc k + j) s"
    by (simp only: after_reads_Suc add_Suc)
  finally show ?case .
qed

lemma after_reads_last:
  "after_reads rxsize (Suc 0) (after_reads rxsize j s) = after_reads rxsize (Suc j) s"
  by (simp add: after_reads_add)

text \<open>While the reads succeed the loop goes on, one read and one insert at a time.\<close>

lemma recieve_loop_ok:
  "k \<le> n \<Longrightarrow> \<forall>i<k. read_status s i = 1 \<Longrightarrow>
     recieve_loop rxsize n st s =
       recieve_loop rxsize (n - k) (if k = 0 then st else Some 1) (after_reads rxsize k s)"
proof (induction k arbitrary: n st s)
  case 0
  show ?case by (simp add: after_reads_0)
next
  case (Suc k)
  then obtain m where n: "n = Suc m" and km: "k \<le> m" by (cases n) auto
  have first: "read_status s 0 = 1" using Suc.prems by auto
  have rest: "\<forall>i<k. read_status (after_reads rxsize (Suc 0) s) i = 1"
    using Suc.prems by (auto simp: read_status_def after_reads_def)
  have step: "recieve_loop rxsize (Suc m) st s =
              recieve_loop rxsize m (Some 1) (after_reads rxsize (Suc 0) s)"
    using first read_step [of rxsize s]
    by (auto simp: read_status_def read_byte_def readChar_def Let_def split: prod.splits)
  show ?case
    using Suc.IH [OF km rest, of "Some 1"]
    by (simp add: n step after_reads_Suc del: recieve_loop.simps)
qed

text \<open>A read that fails ends the loop, after its insert.\<close>

lemma recieve_loop_fail:
  "read_status s 0 \<noteq> 1 \<Longrightarrow>
     recieve_loop rxsize (Suc n) st s = (Some (read_status s 0), after_reads rxsize (Suc 0) s)"
  using read_step [of rxsize s]
  by (auto simp: read_status_def read_byte_def readChar_def Let_def split: prod.splits)

lemma read_status_after:
  "read_status (after_reads rxsize k s) i = read_status s (k + i)"
  by (simp add: read_status_def after_reads_def add.assoc)

lemma recieve_k_reads:
  assumes "1 \<le> k" and "k \<le> n" and "\<forall>i<k - 1. read_status s i = 1"
    and "read_status s (k - 1) \<noteq> 1 \<or> k = n"
  shows "recieve rxsize (int n) s = (Some (read_status s (k - 1)), after_reads rxsize k s)"
proof -
  obtain j where k: "k = Suc j" using assms(1) by (cases k) auto
  have jn: "j \<le> n" using assms(2) k by simp
  obtain m where m: "n - j = Suc m" using assms(2) k by (cases "n - j") auto
  have ok: "\<forall>i<j. read_status s i = 1" using assms(3) k by simp
  have one: "recieve_loop rxsize n None s =
             recieve_loop rxsize (Suc m) (if j = 0 then None else Some 1) (after_reads rxsize j s)"
    using recieve_loop_ok [OF jn ok, of rxsize None] by (simp add: m)
  let ?st = "if j = 0 then None else Some (1::int)"
  let ?s = "after_reads rxsize j s"
  have last: "recieve_loop rxsize (Suc m) ?st ?s =
              (Some (read_status s j), after_reads rxsize (Suc j) s)"
  proof (cases "read_status s j = 1")
    case False
    then have "read_status ?s 0 \<noteq> 1" by (simp add: read_status_after)
    from recieve_loop_fail [OF this, of rxsize m ?st] show ?thesis
      by (simp add: read_status_after after_reads_last del: recieve_loop.simps)
  next
    case True
    then have kn: "k = n" using assms(4) k by simp
    then have m0: "m = 0" using m k by simp
    have "\<forall>i<Suc 0. read_status ?s i = 1" using True by (simp add: read_status_after)
    from recieve_loop_ok [OF le_refl this, of rxsize ?st] show ?thesis
      by (simp add: m0 True after_reads_last del: recieve_loop.simps(2))
  qed
  show ?thesis
    unfolding recieve_def by (simp add: one last k del: recieve_loop.simps)
qed

lemma after_reads_reads:
  "reads (boardinterface (after_reads rxsize k s)) = reads (boardinterface s) + k"
  by (simp add: after_reads_def)

lemma after_reads_history:
  "history rxsize (bufferrx (after_reads rxsize k s)) =
     take rxsize (rev (map (read_byte s) [0..<k]) @ history rxsize (bufferrx s))"
  by (simp add: after_reads_def history_inserts)

text \<open>
  C5. Let \<open>n \<ge> 1\<close> bytes be asked for and let the first \<open>k - 1\<close> reads succeed
  (\<open>1 \<le> k \<le> n\<close>). If the \<open>k\<close>-th read fails, \<open>recieve\<close> returns the status of that
  read, has made exactly \<open>k\<close> reads, and the receive history is the old one with the
  \<open>k\<close> bytes of these reads inserted at the front, the byte of the failed read first.
  If \<open>k = n\<close> and the \<open>n\<close>-th read succeeds too, it returns success (1) after \<open>n\<close>
  reads and \<open>n\<close> inserts.
\<close>

theorem recieve_stops_at_first_failure:
  assumes "1 \<le> k" and "k \<le> n" and "\<forall>i<k - 1. read_status s i = 1"
  shows "(read_status s (k - 1) \<noteq> 1 \<longrightarrow>
            fst (recieve rxsize (int n) s) = Some (read_status s (k - 1))
          \<and> reads (boardinterface (snd (recieve rxsize (int n) s))) = reads (boardinterface s) + k
          \<and> history rxsize (bufferrx (snd (recieve rxsize (int n) s))) =
              take rxsize (rev (map (read_byte s) [0..<k]) @ history rxsize (bufferrx s)))
       \<and> (k = n \<and> read_status s (n - 1) = 1 \<longrightarrow>
            fst (recieve rxsize (int n) s) = Some 1
          \<and> reads (boardinterface (snd (recieve rxsize (int n) s))) = reads (boardinterface s) + n
          \<and> history rxsize (bufferrx (snd (recieve rxsize (int n) s))) =
              take rxsize (rev (map (read_byte s) [0..<n]) @ history rxsize (bufferrx s)))"
proof (intro conjI impI)
  assume f: "read_status s (k - 1) \<noteq> 1"
  then have r: "recieve rxsize (int n) s = (Some (read_status s (k - 1)), after_reads rxsize k s)"
    using recieve_k_reads [OF assms] by simp
  show "fst (recieve rxsize (int n) s) = Some (read_status s (k - 1))"
    by (simp add: r)
  show "reads (boardinterface (snd (recieve rxsize (int n) s))) = reads (boardinterface s) + k"
    by (simp add: r after_reads_reads)
  show "history rxsize (bufferrx (snd (recieve rxsize (int n) s))) =
          take rxsize (rev (map (read_byte s) [0..<k]) @ history rxsize (bufferrx s))"
    by (simp only: r snd_conv after_reads_history)
next
  assume a: "k = n \<and> read_status s (n - 1) = 1"
  then have r: "recieve rxsize (int n) s = (Some 1, after_reads rxsize n s)"
    using recieve_k_reads [OF assms] by simp
  show "fst (recieve rxsize (int n) s) = Some 1"
    by (simp add: r)
  show "reads (boardinterface (snd (recieve rxsize (int n) s))) = reads (boardinterface s) + n"
    by (simp add: r after_reads_reads)
  show "history rxsize (bufferrx (snd (recieve rxsize (int n) s))) =
          take rxsize (rev (map (read_byte s) [0..<n]) @ history rxsize (bufferrx s))"
    by (simp only: r snd_conv after_reads_history)
qed

theorem recieve_stops_at_first_failure_witness:
  "read_status (board 4 (link [] [(1, 0x11), (0, 0x22), (1, 0x33)])) 1 \<noteq> 1
   \<and> fst (recieve 3 3 (board 4 (link [] [(1, 0x11), (0, 0x22), (1, 0x33)]))) = Some 0
   \<and> reads (boardinterface (snd (recieve 3 3 (board 4 (link [] [(1, 0x11), (0, 0x22), (1, 0x33)])))))
       = 2
   \<and> history 3 (bufferrx (snd (recieve 3 3 (board 4 (link [] [(1, 0x11), (0, 0x22), (1, 0x33)])))))
       = [0x22, 0x11, 0]"
proof -
  let ?s = "board 4 (link [] [(1, 0x11), (0, 0x22), (1, 0x33)])"
  have k1: "(1::nat) \<le> 2" and kn: "(2::nat) \<le> 3" by simp_all
  have ok: "\<forall>i<2 - 1. read_status ?s i = 1"
    by (simp add: read_status_def board_def link_def)
  have bad: "read_status ?s (Suc 0) = 0"
    by (simp add: read_status_def board_def link_def)
  have bytes: "map (read_byte ?s) [0..<2] = [0x11, 0x22]"
    by (simp add: read_byte_def board_def link_def upt_rec)
  have old: "history 3 (bufferrx ?s) = [0, 0, 0]" "reads (boardinterface ?s) = 0"
    by (simp_all add: history_def board_def link_def upt_rec)
  show ?thesis
    using recieve_stops_at_first_failure [OF k1 kn ok, of 3]
    by (simp add: bad bytes old)
qed

text \<open>
  C10. The claim is that \<open>recieve\<close> returns a defined status for every \<open>n \<ge> 0\<close>. For
  \<open>n = 0\<close> the loop body never runs, no read is made, and the value returned is the
  content of the local \<open>status\<close>, which was never assigned.
\<close>

theorem recieve_zero_returns_unassigned_status:
  "recieve rxsize 0 s = (None, s)"
  by (simp add: recieve_def)

subsection \<open>The handshake\<close>

lemma recieve_one:
  "recieve rxsize 1 s = (Some (read_status s 0), after_reads rxsize (Suc 0) s)"
  using recieve_k_reads [of 1 1 s rxsize] by simp

lemma after_reads_front: "bufferrx (after_reads rxsize (Suc 0) s) 0 = read_byte s 0"
  by (simp add: after_reads_def bufferAdd_front)

text \<open>The state in which \<open>initBoard\<close> dispatches: the probe is sent, the answer is read.\<close>

lemma probed_fields:
  "relaynumber (after_reads rxsize (Suc 0) (snd (send txsize d ms s))) = relaynumber s"
  "wire (after_reads rxsize (Suc 0) (snd (send txsize d ms s))) = wire s @ [d]"
  "read_status (snd (send txsize d ms s)) i = read_status s i"
  "read_byte (snd (send txsize d ms s)) i = read_byte s i"
  by (simp_all add: send_eq after_reads_def wire_def read_status_def read_byte_def)

lemma initBoard_eq:
  assumes "write_result s = 1" and "read_status s 0 = 1"
  shows "initBoard rxsize txsize s =
     (let s2 = after_reads rxsize (Suc 0) (snd (send txsize 0x50 200 s));
          data = read_byte s 0
      in if data = 0xad then init_commands txsize (s2\<lparr>relaynumber := 2\<rparr>)
         else if data = 0xab then init_commands txsize (s2\<lparr>relaynumber := 4\<rparr>)
         else if data = 0xac then init_commands txsize (s2\<lparr>relaynumber := 8\<rparr>)
         else (1, s2))"
proof -
  define s1 where "s1 = snd (send txsize 0x50 200 s)"
  have p: "send txsize 0x50 200 s = (1, s1)"
    using assms(1) by (simp add: s1_def send_eq)
  have r: "recieve rxsize 1 s1 = (Some 1, after_reads rxsize (Suc 0) s1)"
    using assms(2) by (simp add: s1_def recieve_one probed_fields)
  have d: "bufferrx (after_reads rxsize (Suc 0) s1) 0 = read_byte s 0"
    by (simp add: s1_def after_reads_front probed_fields)
  show ?thesis
    unfolding initBoard_def init_commands_def by (simp add: p r d Let_def)
qed

lemma init_commands_relaynumber:
  "relaynumber (snd (init_commands txsize s)) = relaynumber s"
  by (simp add: init_commands_def send_eq)

lemma init_commands_wire:
  "write_result s = 1 \<Longrightarrow> wire (snd (init_commands txsize s)) = wire s @ [0x51, 0xff]"
  by (simp add: init_commands_def send_eq wire_def)

lemma probed_write_result:
  "write_result (after_reads rxsize (Suc 0) (snd (send txsize d ms s))\<lparr>relaynumber := n\<rparr>) =
     write_status (boardinterface s) (Suc (length (wire s)))"
  by (simp add: send_eq after_reads_def wire_def write_result_def)

lemma probed_wire:
  "wire (after_reads rxsize (Suc 0) (snd (send txsize d ms s))\<lparr>relaynumber := n\<rparr>) = wire s @ [d]"
  by (simp add: send_eq after_reads_def wire_def)

lemma initBoard_unrecognised:
  assumes "write_result s = 1" and "read_status s 0 = 1"
    and "read_byte s 0 \<noteq> 0xAD" and "read_byte s 0 \<noteq> 0xAB" and "read_byte s 0 \<noteq> 0xAC"
  shows "initBoard rxsize txsize s =
           (1, after_reads rxsize (Suc 0) (snd (send txsize 0x50 200 s)))"
  using assms(3-5) by (simp add: initBoard_eq [OF assms(1,2)] Let_def)

lemma demo_board:
  "write_result (board n (link [] rs)) = 1"
  "wire (board n (link [] rs)) = []"
  "relaynumber (board n (link [] rs)) = n"
  "write_status (boardinterface (board n (link [] rs))) i = 1"
  "read_status (board n (link [] (r # rs))) 0 = fst r"
  "read_byte (board n (link [] (r # rs))) 0 = snd r"
  by (simp_all add: write_result_def wire_def read_status_def read_byte_def board_def link_def)

lemma init_commands_fail:
  assumes "write_result s \<noteq> 1"
  shows "fst (init_commands txsize s) = - 1"
    and "wire (snd (init_commands txsize s)) = wire s @ [0x51]"
  using assms by (simp_all add: init_commands_def send_eq wire_def)

text \<open>
  C2, as stated: whenever the byte received after the probe is 0xAD, the handshake
  sets the relay count to 2 and then sends the two bytes 0x51 and 0xFF. Each case of
  \<open>initBoard\<close> returns -1 as soon as a send fails: with the probe written, 0xAD
  received and the write of 0x51 failing, the relay count is 2, the bytes handed to
  the transport are 0x50 and 0x51 only, and 0xFF is never sent.
\<close>

theorem initBoard_stops_after_failed_follow_up:
  "write_result (board 4 (link [1, - 1] [(1, 0xAD)])) = 1
   \<and> read_status (board 4 (link [1, - 1] [(1, 0xAD)])) 0 = 1
   \<and> read_byte (board 4 (link [1, - 1] [(1, 0xAD)])) 0 = 0xAD
   \<and> fst (initBoard 4 4 (board 4 (link [1, - 1] [(1, 0xAD)]))) = - 1
   \<and> relaynumber (snd (initBoard 4 4 (board 4 (link [1, - 1] [(1, 0xAD)])))) = 2
   \<and> wire (snd (initBoard 4 4 (board 4 (link [1, - 1] [(1, 0xAD)])))) = [0x50, 0x51]"
proof -
  let ?s = "board 4 (link [1, - 1] [(1, 0xAD)])"
  have w: "write_result ?s = 1" and r: "read_status ?s 0 = 1"
    and b: "read_byte ?s 0 = 0xAD" and e: "wire ?s = []"
    by (simp_all add: write_result_def read_status_def read_byte_def wire_def board_def link_def)
  let ?p = "after_reads 4 (Suc 0) (snd (send 4 0x50 200 ?s))\<lparr>relaynumber := 2\<rparr>"
  have i: "initBoard 4 4 ?s = init_commands 4 ?p"
    by (simp add: initBoard_eq [OF w r] b Let_def)
  have f: "write_result ?p \<noteq> 1"
    by (simp add: probed_write_result e) (simp add: board_def link_def)
  show ?thesis
    by (simp add: w r b i init_commands_fail [OF f] init_commands_relaynumber probed_wire e)
qed

text \<open>
  C2, amended. Let the probe 0x50 be written successfully and one response byte be
  read successfully. If the byte is 0xAD, 0xAB or 0xAC, the relay count becomes 2, 4
  or 8 whatever it was before, and 0x51 is sent; if that write succeeds, 0xFF is sent
  after it, and if it fails \<open>initBoard\<close> returns -1 with nothing sent after 0x51.
  For any other byte \<open>initBoard\<close> returns 1, the relay count is the one from before
  the handshake, and nothing is sent after the probe.
\<close>

theorem initBoard_dispatch:
  assumes "write_result s = 1" and "read_status s 0 = 1"
  shows "(read_byte s 0 = 0xAD \<longrightarrow> relaynumber (snd (initBoard rxsize txsize s)) = 2)
       \<and> (read_byte s 0 = 0xAB \<longrightarrow> relaynumber (snd (initBoard rxsize txsize s)) = 4)
       \<and> (read_byte s 0 = 0xAC \<longrightarrow> relaynumber (snd (initBoard rxsize txsize s)) = 8)
       \<and> ((read_byte s 0 = 0xAD \<or> read_byte s 0 = 0xAB \<or> read_byte s 0 = 0xAC)
            \<and> write_status (boardinterface s) (Suc (length (wire s))) = 1 \<longrightarrow>
              wire (snd (initBoard rxsize txsize s)) = wire s @ [0x50, 0x51, 0xFF])
       \<and> ((read_byte s 0 = 0xAD \<or> read_byte s 0 = 0xAB \<or> read_byte s 0 = 0xAC)
            \<and> write_status (boardinterface s) (Suc (length (wire s))) \<noteq> 1 \<longrightarrow>
              fst (initBoard rxsize txsize s) = - 1
            \<and> wire (snd (initBoard rxsize txsize s)) = wire s @ [0x50, 0x51])
       \<and> (read_byte s 0 \<noteq> 0xAD \<and> read_byte s 0 \<noteq> 0xAB \<and> read_byte s 0 \<noteq> 0xAC \<longrightarrow>
              fst (initBoard rxsize txsize s) = 1
            \<and> relaynumber (snd (initBoard rxsize txsize s)) = relaynumber s
            \<and> wire (snd (initBoard rxsize txsize s)) = wire s @ [0x50])"
proof -
  note eq = initBoard_eq [OF assms, of rxsize txsize]
  have count: "relaynumber (snd (initBoard rxsize txsize s)) =
      (if read_byte s 0 = 0xAD then 2 else if read_byte s 0 = 0xAB then 4
       else if read_byte s 0 = 0xAC then 8 else relaynumber s)"
    by (simp add: eq Let_def init_commands_relaynumber probed_fields)
  have sent: "wire (snd (initBoard rxsize txsize s)) = wire s @ [0x50, 0x51, 0xFF]"
    if "read_byte s 0 = 0xAD \<or> read_byte s 0 = 0xAB \<or> read_byte s 0 = 0xAC"
      and "write_status (boardinterface s) (Suc (length (wire s))) = 1"
    using that by (auto simp: eq Let_def init_commands_wire probed_write_result probed_wire)
  have stopped: "fst (initBoard rxsize txsize s) = - 1
                \<and> wire (snd (initBoard rxsize txsize s)) = wire s @ [0x50, 0x51]"
    if "read_byte s 0 = 0xAD \<or> read_byte s 0 = 0xAB \<or> read_byte s 0 = 0xAC"
      and "write_status (boardinterface s) (Suc (length (wire s))) \<noteq> 1"
    using that by (auto simp: eq Let_def init_commands_fail probed_write_result probed_wire)
  have other: "fst (initBoard rxsize txsize s) = 1 \<and> wire (snd (initBoard rxsize txsize s)) = wire s @ [0x50]"
    if "read_byte s 0 \<noteq> 0xAD \<and> read_byte s 0 \<noteq> 0xAB \<and> read_byte s 0 \<noteq> 0xAC"
    using that by (simp add: eq Let_def probed_fields)
  show ?thesis
    using sent stopped other by (simp add: count)
qed

theorem initBoard_dispatch_witness:
  "relaynumber (snd (initBoard 4 4 (board 3 (link [] [(1, 0xAD)])))) = 2
   \<and> wire (snd (initBoard 4 4 (board 3 (link [] [(1, 0xAD)])))) = [0x50, 0x51, 0xFF]
   \<and> fst (initBoard 4 4 (board 3 (link [] [(1, 0)]))) = 1
   \<and> relaynumber (snd (initBoard 4 4 (board 3 (link [] [(1, 0)])))) = 3
   \<and> wire (snd (initBoard 4 4 (board 3 (link [] [(1, 0)])))) = [0x50]"
proof -
  let ?a = "board 3 (link [] [(1, 0xAD)])" and ?b = "board 3 (link [] [(1, 0)])"
  have wa: "write_result ?a = 1" and ra: "read_status ?a 0 = 1"
    and wb: "write_result ?b = 1" and rb: "read_status ?b 0 = 1"
    by (simp_all add: demo_board)
  show ?thesis
    using initBoard_dispatch [OF wa ra, of 4 4] initBoard_dispatch [OF wb rb, of 4 4]
    by (simp add: demo_board)
qed

subsection \<open>Setting and reading the relay state\<close>

lemma ucast_NOT_byte: "(ucast (NOT (x :: cint)) :: byte) = NOT (ucast x)"
  by (rule bit_word_eqI) (auto simp: bit_simps)

lemma ucast_AND_byte: "(ucast ((x :: cint) AND y) :: byte) = ucast x AND ucast y"
  by (rule bit_word_eqI) (auto simp: bit_simps)

lemma send_command_eq:
  "send_command txsize com s =
     (if write_result s \<noteq> 1 then - 1 else 1,
      s\<lparr>boardinterface := (boardinterface s)\<lparr>written := written (boardinterface s) @ [com]\<rparr>,
        buffertx := fst (bufferAdd txsize com (buffertx s)),
        slept := slept s @ [50]\<rparr>)"
  by (simp add: send_command_def send_eq)

lemma setState_eq:
  "setState txsize command s = send_command txsize (command_byte (relaynumber s) command) s"
  by (simp add: setState_def send_command_def command_byte_def)

lemma setState_array_eq:
  "setState_array txsize commandarray s =
     (case array_byte (relaynumber s) commandarray of
        Inl e \<Rightarrow> Inl e
      | Inr com \<Rightarrow> Inr (send_command txsize com s))"
  by (simp add: setState_array_def array_byte_def send_command_def split: sum.splits prod.splits)

lemma setState_wire:
  "wire (snd (setState txsize command s)) = wire s @ [command_byte (relaynumber s) command]"
  by (simp add: setState_eq send_command_eq wire_def)

lemma setState_slept:
  "slept (snd (setState txsize command s)) = slept s @ [50]"
  by (simp add: setState_eq send_command_eq)

text \<open>
  C4. With relay count 2, \<open>setState(bitmask)\<close> writes exactly one byte, the input
  masked to its low two bits; with relay count 4 or 8 it writes exactly one byte, the
  bitwise inversion of the input's low eight bits. In both cases the delay asked of
  \<open>os_sleep\<close> after the write is 50 milliseconds.
\<close>

theorem setState_bitmask_encoding:
  "(relaynumber s = 2 \<longrightarrow>
      wire (snd (setState txsize command s)) = wire s @ [ucast command AND 3])
   \<and> (relaynumber s = 4 \<or> relaynumber s = 8 \<longrightarrow>
      wire (snd (setState txsize command s)) = wire s @ [NOT (ucast command)])
   \<and> slept (snd (setState txsize command s)) = slept s @ [50]"
  by (auto simp: setState_wire setState_slept command_byte_def ucast_NOT_byte ucast_AND_byte)

theorem setState_bitmask_encoding_witness:
  "wire (snd (setState 4 0x1F6 (board 2 (link [] [])))) = [2]
   \<and> wire (snd (setState 4 1 (board 8 (link [] [])))) = [0xFE]
   \<and> slept (snd (setState 4 1 (board 8 (link [] [])))) = [50]"
proof -
  have r: "relaynumber (board 2 (link [] [])) = 2" "relaynumber (board 8 (link [] [])) = 8"
    by (simp_all add: board_def)
  have w: "wire (board n (link [] [])) = []" "slept (board n (link [] [])) = []" for n
    by (simp_all add: wire_def board_def link_def)
  show ?thesis
    using setState_bitmask_encoding [of "board 2 (link [] [])" 4 "0x1F6"]
      setState_bitmask_encoding [of "board 8 (link [] [])" 4 1]
    by (simp add: r w)
qed

text \<open>
  C9. Whenever the relay count is anything but 2 (a count outside 2, 4 and 8 included),
  \<open>setState(bitmask)\<close> writes the bitwise inversion of the command; only the count 2
  writes the command masked to its low two bits. So it is for a controller built
  with the guess 3 whose handshake receives the unrecognised byte 0 and keeps the 3.
\<close>

theorem setState_inverts_unless_two:
  "(relaynumber s \<noteq> 2 \<longrightarrow>
      wire (snd (setState txsize command s)) = wire s @ [ucast (NOT command)])
   \<and> (relaynumber s = 2 \<longrightarrow>
      wire (snd (setState txsize command s)) = wire s @ [ucast (command AND 3)])"
  by (simp add: setState_wire command_byte_def)

theorem setState_inverts_unless_two_witness:
  "relaynumber (snd (initBoard 4 4 (board 3 (link [] [(1, 0)])))) = 3
   \<and> wire (snd (setState 4 1 (snd (initBoard 4 4 (board 3 (link [] [(1, 0)])))))) = [0x50, 0xFE]"
proof -
  let ?b = "board 3 (link [] [(1, 0)])"
  have i: "initBoard 4 4 ?b = (1, after_reads 4 (Suc 0) (snd (send 4 0x50 200 ?b)))"
    by (rule initBoard_unrecognised) (simp_all add: demo_board)
  have n: "relaynumber (snd (initBoard 4 4 ?b)) = 3"
    and w: "wire (snd (initBoard 4 4 ?b)) = [0x50]"
    by (simp_all add: i probed_fields demo_board)
  show ?thesis
    using setState_inverts_unless_two [of "snd (initBoard 4 4 ?b)" 4 1]
    by (simp add: n w)
qed

lemma getState_setState:
  "getState (snd (setState txsize m s)) =
     (if relaynumber s = 2 then ucast m AND 3 else ucast m)"
  by (simp add: getState_def setState_eq send_command_eq bufferAdd_front command_byte_def
      ucast_NOT_byte ucast_AND_byte)

lemma fits_byte:
  assumes "(m :: cint) < 2 ^ n" and "n \<le> 8"
  shows "(ucast (ucast m :: byte) :: cint) = m"
proof -
  have m: "m AND mask n = m" using assms(1) by (rule less_mask_eq)
  have "(ucast (ucast m :: byte) :: cint) = m AND mask 8"
    by (rule bit_word_eqI) (auto simp: bit_simps)
  also have "\<dots> = (m AND mask n) AND mask 8" by (simp only: m)
  also have "\<dots> = m AND mask n"
    using assms(2) by (intro bit_word_eqI) (auto simp: bit_simps)
  finally show ?thesis by (simp only: m)
qed

lemma fits_two_bits:
  assumes "(m :: cint) < 2 ^ 2"
  shows "(ucast m :: byte) AND 3 = ucast m"
proof -
  have "m AND mask 2 = m" using assms by (rule less_mask_eq)
  then have "m AND 3 = m" by (simp add: mask_eq_exp_minus_1)
  then have "(ucast (m AND 3) :: byte) = ucast m" by simp
  then show ?thesis by (simp add: ucast_AND_byte)
qed

text \<open>
  C3. For a relay count of 2, 4 or 8 and a bitmask \<open>m\<close> whose set bits lie within the
  low \<open>N\<close> bits, a \<open>setState(m)\<close> whose write succeeds returns 1, and \<open>getState()\<close>
  right after it returns \<open>m\<close>: decoding the byte that was encoded and sent gives the
  bitmask back.
\<close>

theorem getState_after_setState:
  assumes "relaynumber s = 2 \<or> relaynumber s = 4 \<or> relaynumber s = 8"
    and "m < 2 ^ nat (relaynumber s)"
    and "write_result s = 1"
  shows "fst (setState txsize m s) = 1
       \<and> getState (snd (setState txsize m s)) = ucast m
       \<and> ucast (getState (snd (setState txsize m s))) = m"
proof -
  have ret: "fst (setState txsize m s) = 1"
    using assms(3) by (simp add: setState_eq send_command_eq)
  have n8: "nat (relaynumber s) \<le> 8" using assms(1) by auto
  have again: "(ucast (ucast m :: byte) :: cint) = m"
    using assms(2) n8 by (rule fits_byte)
  have dec: "getState (snd (setState txsize m s)) = ucast m"
  proof (cases "relaynumber s = 2")
    case True
    then have "m < 2 ^ 2" using assms(2) by simp
    then show ?thesis by (simp add: getState_setState True fits_two_bits)
  next
    case False
    then show ?thesis by (simp add: getState_setState)
  qed
  show ?thesis by (simp add: ret dec again)
qed

theorem getState_after_setState_witness:
  "(1 :: cint) < 2 ^ nat (relaynumber (board 8 (link [] [])))
   \<and> write_result (board 8 (link [] [])) = 1
   \<and> wire (snd (setState 4 1 (board 8 (link [] [])))) = [0xFE]
   \<and> fst (setState 4 1 (board 8 (link [] []))) = 1
   \<and> getState (snd (setState 4 1 (board 8 (link [] [])))) = 1"
proof -
  let ?s = "board 8 (link [] [])"
  have n: "relaynumber ?s = 2 \<or> relaynumber ?s = 4 \<or> relaynumber ?s = 8"
    by (simp add: board_def)
  have m: "(1 :: cint) < 2 ^ nat (relaynumber ?s)"
    by (simp add: board_def)
  have w: "write_result ?s = 1"
    by (simp add: write_result_def board_def link_def)
  have e: "wire ?s = []" "relaynumber ?s = 8"
    by (simp_all add: wire_def board_def link_def)
  have b: "wire (snd (setState 4 1 ?s)) = [0xFE]"
    by (simp add: setState_wire command_byte_def e)
  show ?thesis
    using getState_after_setState [OF n m w, of 4] by (simp add: m w b)
qed

subsection \<open>The two overloads of setState\<close>

lemma list_of_length_2: "length A = 2 \<Longrightarrow> \<exists>a0 a1. A = [a0, a1]"
  by (auto simp: numeral_eq_Suc length_Suc_conv)

lemma list_of_length_4: "length A = 4 \<Longrightarrow> \<exists>a0 a1 a2 a3. A = [a0, a1, a2, a3]"
  by (auto simp: numeral_eq_Suc length_Suc_conv)

lemma list_of_length_8:
  "length A = 8 \<Longrightarrow> \<exists>a0 a1 a2 a3 a4 a5 a6 a7. A = [a0, a1, a2, a3, a4, a5, a6, a7]"
  by (auto simp: numeral_eq_Suc length_Suc_conv)

lemma loop_count_2: "nat (2 - 1) = Suc 0"
  by simp

lemma loop_count_4: "nat (4 - 1) = Suc (Suc (Suc 0))"
  by simp

lemma loop_count_8: "nat (8 - 1) = Suc (Suc (Suc (Suc (Suc (Suc (Suc 0))))))"
  by simp

lemma array_byte_2:
  assumes "length A = 2" and "set A \<subseteq> {0, 1}"
  shows "array_byte 2 A = Inr (command_byte 2 (bitmask_of A))"
proof -
  obtain a0 a1 where A: "A = [a0, a1]"
    using list_of_length_2 [OF assms(1)] by blast
  have "a0 = 0 \<or> a0 = 1" "a1 = 0 \<or> a1 = 1"
    using assms(2) by (auto simp: A)
  then show ?thesis
    unfolding A array_byte_def loop_count_2
    by (auto simp: array_at_def command_byte_def ucast_NOT_byte)
qed

lemma array_byte_4:
  assumes "length A = 4" and "set A \<subseteq> {0, 1}"
  shows "array_byte 4 A = Inr (NOT (ucast (bitmask_of A)) AND 0x0F)"
proof -
  obtain a0 a1 a2 a3 where A: "A = [a0, a1, a2, a3]"
    using list_of_length_4 [OF assms(1)] by blast
  have "a0 = 0 \<or> a0 = 1" "a1 = 0 \<or> a1 = 1" "a2 = 0 \<or> a2 = 1" "a3 = 0 \<or> a3 = 1"
    using assms(2) by (auto simp: A)
  then show ?thesis
    unfolding A array_byte_def loop_count_4
    by (auto simp: array_at_def)
qed

lemma array_byte_8:
  assumes "length A = 8" and "set A \<subseteq> {0, 1}"
  shows "array_byte 8 A = Inr (command_byte 8 (bitmask_of A))"
proof -
  obtain a0 a1 a2 a3 a4 a5 a6 a7 where A: "A = [a0, a1, a2, a3, a4, a5, a6, a7]"
    using list_of_length_8 [OF assms(1)] by blast
  have "a0 = 0 \<or> a0 = 1" "a1 = 0 \<or> a1 = 1" "a2 = 0 \<or> a2 = 1" "a3 = 0 \<or> a3 = 1"
    "a4 = 0 \<or> a4 = 1" "a5 = 0 \<or> a5 = 1" "a6 = 0 \<or> a6 = 1" "a7 = 0 \<or> a7 = 1"
    using assms(2) by (auto simp: A)
  then show ?thesis
    unfolding A array_byte_def loop_count_8
    by (auto simp: array_at_def command_byte_def ucast_NOT_byte)
qed

lemma send_command_wire: "wire (snd (send_command txsize com s)) = wire s @ [com]"
  by (simp add: send_command_eq wire_def)

lemma send_command_getState:
  "getState (snd (send_command txsize com s)) = (if relaynumber s = 2 then com else NOT com)"
  by (simp add: getState_def send_command_eq bufferAdd_front)

text \<open>
  What the two overloads do on equivalent inputs, for a relay count \<open>N\<close> of 2, 4 or 8
  and an array of \<open>N\<close> entries that are 0 or 1: for 2 and for 8 the array overload does
  exactly what the bitmask overload does (same result, same byte written, same state);
  for 4 the bitmask overload writes the inversion of the whole byte and the array
  overload writes that byte with its high four bits cleared.
\<close>

lemma overloads_on_equivalent_inputs:
  assumes "relaynumber s = 2 \<or> relaynumber s = 4 \<or> relaynumber s = 8"
    and "int (length A) = relaynumber s"
    and "set A \<subseteq> {0, 1}"
  shows "(relaynumber s = 2 \<or> relaynumber s = 8 \<longrightarrow>
            setState_array txsize A s = Inr (setState txsize (bitmask_of A) s))
       \<and> (relaynumber s = 4 \<longrightarrow>
            (\<exists>r. setState_array txsize A s = Inr r
                \<and> wire (snd r) = wire s @ [NOT (ucast (bitmask_of A)) AND 0x0F])
          \<and> wire (snd (setState txsize (bitmask_of A) s)) = wire s @ [NOT (ucast (bitmask_of A))])"
proof (intro conjI impI)
  assume "relaynumber s = 2 \<or> relaynumber s = 8"
  then show "setState_array txsize A s = Inr (setState txsize (bitmask_of A) s)"
  proof
    assume n: "relaynumber s = 2"
    then have "length A = 2" using assms(2) by simp
    from array_byte_2 [OF this assms(3)] show ?thesis
      by (simp add: setState_array_eq setState_eq n)
  next
    assume n: "relaynumber s = 8"
    then have "length A = 8" using assms(2) by simp
    from array_byte_8 [OF this assms(3)] show ?thesis
      by (simp add: setState_array_eq setState_eq n)
  qed
next
  assume n: "relaynumber s = 4"
  then have "length A = 4" using assms(2) by simp
  from array_byte_4 [OF this assms(3)]
  show "\<exists>r. setState_array txsize A s = Inr r
            \<and> wire (snd r) = wire s @ [NOT (ucast (bitmask_of A)) AND 0x0F]"
    by (simp add: setState_array_eq n send_command_wire)
next
  assume n: "relaynumber s = 4"
  show "wire (snd (setState txsize (bitmask_of A) s)) = wire s @ [NOT (ucast (bitmask_of A))]"
    by (simp add: setState_wire n command_byte_def ucast_NOT_byte)
qed

text \<open>
  C1. The claim is that for every relay count in 2, 4, 8 the array overload and the
  bitmask overload write the same byte for the same target state. With relay count 4
  and all four relays off they do not: the array overload folds its four entries into
  the low nibble and writes 0x0F, the bitmask overload inverts the whole byte and
  writes 0xFF. \<open>getState\<close> then reads 0xF0 back after the array call and 0 after the
  bitmask call.
\<close>

theorem setState_overloads_differ_for_four:
  "array_byte 4 [0, 0, 0, 0] = Inr 0x0F
   \<and> command_byte 4 (bitmask_of [0, 0, 0, 0]) = 0xFF
   \<and> wire (snd (projr (setState_array 4 [0, 0, 0, 0] (board 4 (link [] []))))) = [0x0F]
   \<and> wire (snd (setState 4 (bitmask_of [0, 0, 0, 0]) (board 4 (link [] [])))) = [0xFF]
   \<and> getState (snd (projr (setState_array 4 [0, 0, 0, 0] (board 4 (link [] []))))) = 0xF0
   \<and> getState (snd (setState 4 (bitmask_of [0, 0, 0, 0]) (board 4 (link [] [])))) = 0"
proof -
  have a: "array_byte 4 [0, 0, 0, 0] = Inr 0x0F"
    unfolding array_byte_def loop_count_4 by (simp add: array_at_def)
  have c: "command_byte 4 0 = 0xFF"
    by (simp add: command_byte_def unsigned_minus_1_eq_mask mask_eq_exp_minus_1)
  show ?thesis
    by (simp add: a c setState_array_eq setState_eq send_command_wire send_command_getState
        demo_board)
qed

end
